theory Spec2Isabelle
  imports Main "HOL-Library.Multiset"
begin

section \<open>The community feed stub layer of \<^verbatim>\<open>app/loginpg.tsx\<close>\<close>

text \<open>
  The feed keeps its data in two module-level variables, \<^verbatim>\<open>_stubPosts\<close> (an array of
  \<^verbatim>\<open>Post\<close>) and \<^verbatim>\<open>_stubComments\<close> (a plain object from post id to an array of
  \<^verbatim>\<open>Comment\<close>). Every function of the stub layer reads and writes these two, so the
  model passes them around as one record. An \<^verbatim>\<open>async\<close> function whose body has no
  \<^verbatim>\<open>await\<close> runs to its end when it is called, so each call is one state transformer.

  Numbers are modelled as \<open>int\<close> (the counters and time stamps of the program are
  integers; NaN and fractions are outside the model). \<^verbatim>\<open>Date.now()\<close> is an input of the
  functions that read the clock. Strings are lists of code units below 256.
\<close>

subsection \<open>Data\<close>

datatype mediaKind = image | video

datatype reaction = like | dislike

datatype error = NotFound | EmptyText | TypeError

text \<open>\<^verbatim>\<open>Omit<Post, "id">\<close>, the argument of \<^verbatim>\<open>createPost\<close>, and \<^verbatim>\<open>Post\<close> itself.\<close>

record postDraft =
  authorId :: string
  authorName :: string
  title :: string
  description :: string
  mediaUrl :: "string option"
  mediaType :: "mediaKind option"
  likeCount :: int
  dislikeCount :: int
  likedBy :: "string list"
  dislikedBy :: "string list"
  commentCount :: int
  createdAt :: int

record post = postDraft +
  post_id :: string

text \<open>\<^verbatim>\<open>Omit<Comment, "id">\<close>, the argument of \<^verbatim>\<open>addComment\<close>, and \<^verbatim>\<open>Comment\<close>.\<close>

record commentDraft =
  comment_authorId :: string
  comment_authorName :: string
  comment_text :: string
  comment_createdAt :: int

record comment = commentDraft +
  comment_id :: string

record store =
  stubPosts :: "post list"
  stubComments :: "string \<rightharpoonup> comment list"

definition initialStore :: store where
  "initialStore = \<lparr>stubPosts = [], stubComments = Map.empty\<rparr>"

subsection \<open>JavaScript helpers\<close>

text \<open>The decimal digits of a clock reading, as a template literal prints an integer.\<close>

definition digitChar :: "nat \<Rightarrow> char" where
  "digitChar d = char_of (48 + d)"

fun showNat :: "nat \<Rightarrow> string" where
  "showNat n = (if n < 10 then [digitChar n] else showNat (n div 10) @ [digitChar (n mod 10)])"

declare showNat.simps [simp del]

text \<open>
  \<^verbatim>\<open>Array.prototype.sort\<close> with a comparator is stable, and on a consistent comparator
  its result is the one stable ordering of the input; insertion from the right computes it.
  \<open>placeInto cmp x ys\<close> puts \<open>x\<close>, which stood before all of \<open>ys\<close>, in front of the
  first element it does not have to follow.
\<close>

fun placeInto :: "('a \<Rightarrow> 'a \<Rightarrow> int) \<Rightarrow> 'a \<Rightarrow> 'a list \<Rightarrow> 'a list" where
  "placeInto cmp x [] = [x]"
| "placeInto cmp x (y # ys) = (if cmp x y \<le> 0 then x # y # ys else y # placeInto cmp x ys)"

fun jsSort :: "('a \<Rightarrow> 'a \<Rightarrow> int) \<Rightarrow> 'a list \<Rightarrow> 'a list" where
  "jsSort cmp [] = []"
| "jsSort cmp (x # xs) = placeInto cmp x (jsSort cmp xs)"

text \<open>
  \<^verbatim>\<open>arr.find(pred)\<close> is \<open>find\<close>; the object it returns is then mutated in place, which
  changes the first element of the array that satisfies the predicate.
\<close>

fun updateFirst :: "('a \<Rightarrow> bool) \<Rightarrow> ('a \<Rightarrow> 'a) \<Rightarrow> 'a list \<Rightarrow> 'a list" where
  "updateFirst P f [] = []"
| "updateFirst P f (x # xs) = (if P x then f x # xs else x # updateFirst P f xs)"

text \<open>
  \<^verbatim>\<open>_stubComments\<close> is an object literal, so looking up a key that is not an own property
  falls through to \<^verbatim>\<open>Object.prototype\<close>. For the names below the lookup yields a function
  or object that is truthy and has neither \<^verbatim>\<open>push\<close> nor \<^verbatim>\<open>sort\<close>; for every other
  missing key it yields \<^verbatim>\<open>undefined\<close>.
\<close>

definition objectPrototypeKeys :: "string list" where
  "objectPrototypeKeys =
     [''constructor'', ''__proto__'', ''hasOwnProperty'', ''isPrototypeOf'',
      ''propertyIsEnumerable'', ''toLocaleString'', ''toString'', ''valueOf'',
      ''__defineGetter__'', ''__defineSetter__'', ''__lookupGetter__'', ''__lookupSetter__'']"

definition inheritedKey :: "string \<Rightarrow> bool" where
  "inheritedKey k = (k \<in> set objectPrototypeKeys)"

text \<open>\<^verbatim>\<open>String.prototype.trim\<close>, on the white space and line terminators below 256.\<close>

definition isWhiteSpace :: "char \<Rightarrow> bool" where
  "isWhiteSpace c = (of_char c \<in> {9, 10, 11, 12, 13, 32, 160 :: nat})"

definition trim :: "string \<Rightarrow> string" where
  "trim s = rev (dropWhile isWhiteSpace (rev (dropWhile isWhiteSpace s)))"

subsection \<open>Reading and creating posts\<close>

text \<open>
  \<^verbatim>\<open>return [..._stubPosts].sort((a, b) => b.createdAt - a.createdAt);\<close>
  The copy is sorted, the store is not touched.
\<close>

definition fetchPosts :: "store \<Rightarrow> post list" where
  "fetchPosts s = jsSort (\<lambda>a b. createdAt b - createdAt a) (stubPosts s)"

text \<open>
  \<^verbatim>\<open>const id = `post_${Date.now()}`; _stubPosts.unshift({ ...post, id }); return id;\<close>
\<close>

definition withId :: "postDraft \<Rightarrow> string \<Rightarrow> post" where
  "withId d i = postDraft.extend d (post.fields i)"

definition createPost :: "store \<Rightarrow> postDraft \<Rightarrow> nat \<Rightarrow> string \<times> store" where
  "createPost s d now =
     (let i = ''post_'' @ showNat now
      in (i, s\<lparr>stubPosts := withId d i # stubPosts s\<rparr>))"

subsection \<open>Reactions\<close>

text \<open>
  \<^verbatim>\<open>toggleReaction\<close> computes the field names from the reaction
  (\<^verbatim>\<open>`${reaction}dBy`\<close>, \<^verbatim>\<open>`${reaction}Count`\<close>); the accessors below are those
  computed field reads and writes.
\<close>

definition other :: "reaction \<Rightarrow> reaction" where
  "other r = (if r = like then dislike else like)"

fun getBy :: "reaction \<Rightarrow> post \<Rightarrow> string list" where
  "getBy like p = likedBy p"
| "getBy dislike p = dislikedBy p"

fun setBy :: "reaction \<Rightarrow> string list \<Rightarrow> post \<Rightarrow> post" where
  "setBy like v p = p\<lparr>likedBy := v\<rparr>"
| "setBy dislike v p = p\<lparr>dislikedBy := v\<rparr>"

fun getCount :: "reaction \<Rightarrow> post \<Rightarrow> int" where
  "getCount like p = likeCount p"
| "getCount dislike p = dislikeCount p"

fun setCount :: "reaction \<Rightarrow> int \<Rightarrow> post \<Rightarrow> post" where
  "setCount like v p = p\<lparr>likeCount := v\<rparr>"
| "setCount dislike v p = p\<lparr>dislikeCount := v\<rparr>"

text \<open>The body of \<^verbatim>\<open>toggleReaction\<close> after the post has been found.\<close>

definition react :: "string \<Rightarrow> reaction \<Rightarrow> post \<Rightarrow> post" where
  "react userId r p0 =
     (if userId \<in> set (getBy r p0) then
        (let p1 = setBy r (filter (\<lambda>i. i \<noteq> userId) (getBy r p0)) p0
         in setCount r (max 0 (getCount r p1 - 1)) p1)
      else
        (let p1 = setBy r (getBy r p0 @ [userId]) p0;
             p2 = setCount r (getCount r p1 + 1) p1
         in if userId \<in> set (getBy (other r) p2) then
              (let p3 = setBy (other r) (filter (\<lambda>i. i \<noteq> userId) (getBy (other r) p2)) p2
               in setCount (other r) (max 0 (getCount (other r) p3 - 1)) p3)
            else p2))"

text \<open>
  \<^verbatim>\<open>const post = _stubPosts.find((p) => p.id === postId); if (!post) return;\<close>
  The function returns \<^verbatim>\<open>Promise<void>\<close> and has no \<^verbatim>\<open>throw\<close>; the early return is a
  normal return. The result type has an error side so that a claim about a signalled
  error can be stated.
\<close>

definition toggleReaction :: "store \<Rightarrow> string \<Rightarrow> string \<Rightarrow> reaction \<Rightarrow> error + store" where
  "toggleReaction s postId userId r =
     (case find (\<lambda>p. post_id p = postId) (stubPosts s) of
        None \<Rightarrow> Inr s
      | Some _ \<Rightarrow>
          Inr (s\<lparr>stubPosts := updateFirst (\<lambda>p. post_id p = postId) (react userId r) (stubPosts s)\<rparr>))"

subsection \<open>Comments\<close>

text \<open>
  \<^verbatim>\<open>_stubComments[postId]\<close>: an own property holds an array; a missing key is
  \<^verbatim>\<open>undefined\<close> unless \<^verbatim>\<open>Object.prototype\<close> supplies a value for it, and then the
  method call on that value throws a \<^verbatim>\<open>TypeError\<close>. Both functions throw before they
  change anything, so the error side carries no store.
\<close>

text \<open>
  \<^verbatim>\<open>return (_stubComments[postId] || []).sort((a, b) => a.createdAt - b.createdAt);\<close>
  The stored array is sorted in place and returned.
\<close>

definition fetchComments :: "store \<Rightarrow> string \<Rightarrow> error + (comment list \<times> store)" where
  "fetchComments s postId =
     (case stubComments s postId of
        Some cs \<Rightarrow>
          (let sorted = jsSort (\<lambda>a b. comment_createdAt a - comment_createdAt b) cs
           in Inr (sorted, s\<lparr>stubComments := (stubComments s)(postId \<mapsto> sorted)\<rparr>))
      | None \<Rightarrow> if inheritedKey postId then Inl TypeError else Inr ([], s))"

definition withCommentId :: "commentDraft \<Rightarrow> string \<Rightarrow> comment" where
  "withCommentId c i = commentDraft.extend c (comment.fields i)"

text \<open>
  \<^verbatim>\<open>const id = `cmt_${Date.now()}`;\<close>
  \<^verbatim>\<open>if (!_stubComments[postId]) _stubComments[postId] = [];\<close>
  \<^verbatim>\<open>_stubComments[postId].push({ ...comment, id });\<close>
  \<^verbatim>\<open>const post = _stubPosts.find((p) => p.id === postId);\<close>
  \<^verbatim>\<open>if (post) post.commentCount = (_stubComments[postId] || []).length;\<close>
\<close>

definition addComment :: "store \<Rightarrow> string \<Rightarrow> commentDraft \<Rightarrow> nat \<Rightarrow> error + store" where
  "addComment s postId c now =
     (let i = ''cmt_'' @ showNat now
      in if stubComments s postId = None \<and> inheritedKey postId then Inl TypeError
         else
           (let cs0 = (case stubComments s postId of None \<Rightarrow> [] | Some cs \<Rightarrow> cs);
                cs1 = cs0 @ [withCommentId c i];
                s1 = s\<lparr>stubComments := (stubComments s)(postId \<mapsto> cs1)\<rparr>
            in case find (\<lambda>p. post_id p = postId) (stubPosts s1) of
                 None \<Rightarrow> Inr s1
               | Some _ \<Rightarrow>
                   Inr (s1\<lparr>stubPosts :=
                          updateFirst (\<lambda>p. post_id p = postId)
                            (\<lambda>p. p\<lparr>commentCount := int (length cs1)\<rparr>) (stubPosts s1)\<rparr>)))"

text \<open>
  The store effect of \<^verbatim>\<open>send\<close> in the comment sheet, the only caller of
  \<^verbatim>\<open>addComment\<close>:
  \<^verbatim>\<open>if (!text.trim()) return;\<close>
  \<^verbatim>\<open>await addComment(postId, { authorId: currentUserId, authorName: currentUserName,\<close>
  \<^verbatim>\<open>                           text: text.trim(), createdAt: Date.now() });\<close>
  \<^verbatim>\<open>await load();\<close>
  where \<^verbatim>\<open>load\<close> calls \<^verbatim>\<open>fetchComments(postId)\<close>. The first clock reading is the one
  of the argument, the second the one inside \<^verbatim>\<open>addComment\<close>.
\<close>

definition send :: "store \<Rightarrow> string \<Rightarrow> string \<Rightarrow> string \<Rightarrow> string \<Rightarrow> nat \<Rightarrow> nat \<Rightarrow> error + store" where
  "send s postId currentUserId currentUserName text now1 now2 =
     (if trim text = [] then Inr s
      else
        (case addComment s postId
                \<lparr>comment_authorId = currentUserId, comment_authorName = currentUserName,
                 comment_text = trim text, comment_createdAt = int now1\<rparr> now2 of
           Inl e \<Rightarrow> Inl e
         | Inr s1 \<Rightarrow>
             (case fetchComments s1 postId of
                Inl e \<Rightarrow> Inl e
              | Inr (_, s2) \<Rightarrow> Inr s2)))"

subsection \<open>Sequences of operations\<close>

datatype op =
    CreatePost postDraft nat
  | ToggleReaction string string reaction
  | AddComment string commentDraft nat

fun step :: "store \<Rightarrow> op \<Rightarrow> error + store" where
  "step s (CreatePost d now) = Inr (snd (createPost s d now))"
| "step s (ToggleReaction postId userId r) = toggleReaction s postId userId r"
| "step s (AddComment postId c now) = addComment s postId c now"

text \<open>
  A call that throws has changed nothing, and the calls after it still run on the store
  as it was.
\<close>

definition exec :: "store \<Rightarrow> op \<Rightarrow> store" where
  "exec s x = (case step s x of Inl _ \<Rightarrow> s | Inr s' \<Rightarrow> s')"

fun run :: "store \<Rightarrow> op list \<Rightarrow> store" where
  "run s [] = s"
| "run s (x # xs) = run (exec s x) xs"

definition toggles :: "(string \<times> string \<times> reaction) list \<Rightarrow> op list" where
  "toggles ts = map (\<lambda>(postId, userId, r). ToggleReaction postId userId r) ts"

subsection \<open>The invariants of the data model\<close>

text \<open>A user is in at most one of the two reaction sets of a post.\<close>

definition atMostOne :: "string \<Rightarrow> post \<Rightarrow> bool" where
  "atMostOne u p = (\<not> (u \<in> set (likedBy p) \<and> u \<in> set (dislikedBy p)))"

text \<open>
  The counters equal the number of users in the reaction sets. \<^verbatim>\<open>likedBy\<close> and
  \<^verbatim>\<open>dislikedBy\<close> are arrays used as sets, so the number of elements is the number of
  distinct users.
\<close>

definition countsOk :: "post \<Rightarrow> bool" where
  "countsOk p = (likeCount p = int (card (set (likedBy p))) \<and>
                 dislikeCount p = int (card (set (dislikedBy p))))"

subsection \<open>Reading the store\<close>

text \<open>The array stored for a post id, \<^verbatim>\<open>_stubComments[postId] || []\<close> on an own property.\<close>

definition storedComments :: "store \<Rightarrow> string \<Rightarrow> comment list" where
  "storedComments s k = (case stubComments s k of None \<Rightarrow> [] | Some cs \<Rightarrow> cs)"

text \<open>
  The comment counter of a post agrees with what \<^verbatim>\<open>fetchComments\<close> returns for its id
  (and \<^verbatim>\<open>fetchComments\<close> does return).
\<close>

definition commentCountOk :: "store \<Rightarrow> post \<Rightarrow> bool" where
  "commentCountOk s p =
     (case fetchComments s (post_id p) of
        Inl _ \<Rightarrow> False
      | Inr (cs, _) \<Rightarrow> commentCount p = int (length cs))"

text \<open>The reaction state of a post: both sets and both counters.\<close>

definition reactionState :: "post \<Rightarrow> string list \<times> string list \<times> int \<times> int" where
  "reactionState p = (likedBy p, dislikedBy p, likeCount p, dislikeCount p)"

text \<open>Two posts agree on every field that is not part of the reaction state.\<close>

definition sameOutsideReactions :: "post \<Rightarrow> post \<Rightarrow> bool" where
  "sameOutsideReactions p q =
     (post_id q = post_id p \<and> authorId q = authorId p \<and> authorName q = authorName p \<and>
      title q = title p \<and> description q = description p \<and> mediaUrl q = mediaUrl p \<and>
      mediaType q = mediaType p \<and> commentCount q = commentCount p \<and> createdAt q = createdAt p)"

subsection \<open>Drafts as the create-post form builds them\<close>

text \<open>
  \<^verbatim>\<open>submit\<close>, the only caller of \<^verbatim>\<open>createPost\<close>, passes
  \<^verbatim>\<open>likeCount: 0, dislikeCount: 0, likedBy: [], dislikedBy: [], commentCount: 0\<close>.
\<close>

definition zeroInitialized :: "postDraft \<Rightarrow> bool" where
  "zeroInitialized d =
     (likeCount d = 0 \<and> dislikeCount d = 0 \<and> likedBy d = [] \<and> dislikedBy d = [] \<and>
      commentCount d = 0)"

fun zeroDrafts :: "op \<Rightarrow> bool" where
  "zeroDrafts (CreatePost d now) = zeroInitialized d"
| "zeroDrafts (ToggleReaction postId userId r) = True"
| "zeroDrafts (AddComment postId c now) = True"

text \<open>
  The sequences of operations the feed screen can produce: a draft has \<^verbatim>\<open>commentCount\<close>
  0 and its clock reading gives an id no stored post has, and a comment is added to a post
  that is in the store (the comment sheet opens from a post of the feed).
\<close>

fun admissible :: "store \<Rightarrow> op \<Rightarrow> bool" where
  "admissible s (CreatePost d now) =
     (commentCount d = 0 \<and> (''post_'' @ showNat now) \<notin> post_id ` set (stubPosts s))"
| "admissible s (ToggleReaction postId userId r) = True"
| "admissible s (AddComment postId c now) = (postId \<in> post_id ` set (stubPosts s))"

fun admissibleSeq :: "store \<Rightarrow> op list \<Rightarrow> bool" where
  "admissibleSeq s [] = True"
| "admissibleSeq s (x # xs) = (admissible s x \<and> admissibleSeq (exec s x) xs)"

text \<open>What such sequences maintain, from the empty store on.\<close>

definition feedInv :: "store \<Rightarrow> bool" where
  "feedInv s =
     (distinct (map post_id (stubPosts s)) \<and>
      (\<forall>k. stubComments s k \<noteq> None \<longrightarrow> k \<in> post_id ` set (stubPosts s)) \<and>
      (\<forall>p \<in> set (stubPosts s). \<not> inheritedKey (post_id p)) \<and>
      (\<forall>p \<in> set (stubPosts s). commentCount p = int (length (storedComments s (post_id p)))))"

subsection \<open>Concrete stores\<close>

text \<open>The scenario of the specification: one post by \<open>u1\<close>, reactions by \<open>u2\<close>, a comment by \<open>u3\<close>.\<close>

definition demoDraft :: postDraft where
  "demoDraft =
     \<lparr>authorId = ''u1'', authorName = ''U1'', title = ''Rain advice'', description = [],
      mediaUrl = None, mediaType = None, likeCount = 0, dislikeCount = 0, likedBy = [],
      dislikedBy = [], commentCount = 0, createdAt = 1000\<rparr>"

definition olderDraft :: postDraft where
  "olderDraft = demoDraft\<lparr>title := ''Soil'', createdAt := 500\<rparr>"

definition demoComment :: commentDraft where
  "demoComment =
     \<lparr>comment_authorId = ''u3'', comment_authorName = ''U3'', comment_text = ''Nice tip'',
      comment_createdAt = 2000\<rparr>"

definition blankComment :: commentDraft where
  "blankComment = demoComment\<lparr>comment_text := ''   ''\<rparr>"

definition demoStore :: store where
  "demoStore = run initialStore [CreatePost demoDraft 1000]"

definition dislikedStore :: store where
  "dislikedStore =
     run initialStore [CreatePost demoDraft 1000, ToggleReaction ''post_1000'' ''u2'' dislike]"

definition twoPostStore :: store where
  "twoPostStore = run initialStore [CreatePost demoDraft 1000, CreatePost olderDraft 1001]"

text \<open>A draft that is not zero-initialised: \<open>u2\<close> is in \<^verbatim>\<open>dislikedBy\<close>, the counter is 0.\<close>

definition staleDraft :: postDraft where
  "staleDraft = demoDraft\<lparr>dislikedBy := [''u2'']\<rparr>"

definition staleStore :: store where
  "staleStore = run initialStore [CreatePost staleDraft 1000]"

text \<open>A draft whose \<^verbatim>\<open>commentCount\<close> is not 0.\<close>

definition countedDraft :: postDraft where
  "countedDraft = demoDraft\<lparr>commentCount := 7\<rparr>"

definition countedStore :: store where
  "countedStore = run initialStore [CreatePost countedDraft 1000]"

definition orphanStore :: store where
  "orphanStore = run initialStore [AddComment ''post_5'' demoComment 1, CreatePost demoDraft 5]"

text \<open>Two posts made at one clock reading, and a later one.\<close>

definition collisionStore :: store where
  "collisionStore =
     run initialStore
       [CreatePost demoDraft 1000, CreatePost olderDraft 1000, CreatePost olderDraft 1001]"

definition demoOps :: "op list" where
  "demoOps =
     [CreatePost demoDraft 1000, ToggleReaction ''post_1000'' ''u2'' like,
      ToggleReaction ''post_1000'' ''u2'' dislike, AddComment ''post_1000'' demoComment 2000]"

section \<open>Properties\<close>

subsection \<open>Lists\<close>

lemma length_updateFirst [simp]: "length (updateFirst P f xs) = length xs"
  by (induction xs) auto

lemma updateFirst_none: "\<forall>x \<in> set xs. \<not> P x \<Longrightarrow> updateFirst P f xs = xs"
  by (induction xs) auto

lemma nth_updateFirst:
  "i < length xs \<Longrightarrow> updateFirst P f xs ! i = xs ! i \<or> updateFirst P f xs ! i = f (xs ! i)"
proof (induction xs arbitrary: i)
  case Nil
  then show ?case by simp
next
  case (Cons x xs)
  then show ?case by (cases i) auto
qed

text \<open>Only the first match changes: a later match, like a non-match, stays as it is.\<close>

lemma nth_updateFirst_other:
  "i < length xs \<Longrightarrow> \<not> P (xs ! i) \<or> (\<exists>j<i. P (xs ! j)) \<Longrightarrow>
   updateFirst P f xs ! i = xs ! i"
proof (induction xs arbitrary: i)
  case Nil
  then show ?case by simp
next
  case (Cons x xs)
  show ?case
  proof (cases i)
    case 0
    with Cons.prems show ?thesis by simp
  next
    case (Suc k)
    show ?thesis
    proof (cases "P x")
      case True
      with Suc show ?thesis by simp
    next
      case False
      have "\<not> P (xs ! k) \<or> (\<exists>j<k. P (xs ! j))"
      proof (cases "P (xs ! k)")
        case True
        with Cons.prems(2) Suc obtain j where j: "j < Suc k" "P ((x # xs) ! j)" by auto
        with False obtain j' where "j = Suc j'" by (cases j) auto
        with j show ?thesis by auto
      next
        case False
        then show ?thesis by simp
      qed
      with Cons.IH [of k] Cons.prems(1) Suc False show ?thesis by simp
    qed
  qed
qed

lemma set_updateFirst: "q \<in> set (updateFirst P f xs) \<Longrightarrow> q \<in> set xs \<or> q \<in> f ` set xs"
  by (induction xs) (auto split: if_splits)

lemma find_updateFirst:
  "(\<And>x. P (f x) = P x) \<Longrightarrow> find P (updateFirst P f xs) = map_option f (find P xs)"
  by (induction xs) auto

lemma updateFirst_frame:
  "list_all2 (\<lambda>p q. (q = p \<or> q = f p) \<and> (\<not> P p \<longrightarrow> q = p)) xs (updateFirst P f xs)"
proof (induction xs)
  case Nil
  then show ?case by simp
next
  case (Cons x xs)
  have "list_all2 (\<lambda>p q. (q = p \<or> q = f p) \<and> (\<not> P p \<longrightarrow> q = p)) xs xs"
    by (simp add: list_all2_same)
  with Cons show ?case by simp
qed

text \<open>With distinct keys the first match is the only one.\<close>

lemma updateFirst_distinct:
  "distinct (map g xs) \<Longrightarrow>
   updateFirst (\<lambda>p. g p = k) f xs = map (\<lambda>p. if g p = k then f p else p) xs"
proof (induction xs)
  case Nil
  then show ?case by simp
next
  case (Cons x xs)
  show ?case
  proof (cases "g x = k")
    case True
    with Cons.prems have "\<forall>p \<in> set xs. g p \<noteq> k"
      by (metis distinct.simps(2) image_eqI list.simps(9) set_map)
    then have "map (\<lambda>p. if g p = k then f p else p) xs = xs" by (simp add: map_idI)
    with True show ?thesis by simp
  next
    case False
    with Cons show ?thesis by simp
  qed
qed

subsection \<open>Sorting\<close>

lemma mset_placeInto [simp]: "mset (placeInto cmp x ys) = add_mset x (mset ys)"
  by (induction ys) auto

lemma mset_jsSort [simp]: "mset (jsSort cmp xs) = mset xs"
  by (induction xs) auto

lemma set_placeInto [simp]: "set (placeInto cmp x ys) = insert x (set ys)"
  by (induction ys) auto

lemma length_jsSort [simp]: "length (jsSort cmp xs) = length xs"
proof -
  have "size (mset (jsSort cmp xs)) = size (mset xs)" by simp
  then show ?thesis by (simp only: size_mset)
qed

lemma placeInto_ordered:
  assumes total: "\<And>a b. cmp a b \<le> 0 \<or> cmp b a \<le> 0"
    and trans: "\<And>a b c. cmp a b \<le> 0 \<Longrightarrow> cmp b c \<le> 0 \<Longrightarrow> cmp a c \<le> 0"
  shows "sorted_wrt (\<lambda>a b. cmp a b \<le> 0) ys \<Longrightarrow>
         sorted_wrt (\<lambda>a b. cmp a b \<le> 0) (placeInto cmp x ys)"
proof (induction ys)
  case Nil
  then show ?case by simp
next
  case (Cons y ys)
  show ?case
  proof (cases "cmp x y \<le> 0")
    case True
    with Cons.prems trans show ?thesis by auto
  next
    case False
    with total have "cmp y x \<le> 0" by blast
    with False Cons show ?thesis by auto
  qed
qed

lemma jsSort_ordered:
  assumes total: "\<And>a b. cmp a b \<le> 0 \<or> cmp b a \<le> 0"
    and trans: "\<And>a b c. cmp a b \<le> 0 \<Longrightarrow> cmp b c \<le> 0 \<Longrightarrow> cmp a c \<le> 0"
  shows "sorted_wrt (\<lambda>a b. cmp a b \<le> 0) (jsSort cmp xs)"
proof (induction xs)
  case Nil
  then show ?case by simp
next
  case (Cons x xs)
  then show ?case using placeInto_ordered [of cmp, OF total trans] by simp
qed

subsection \<open>One reaction on one post\<close>

lemma withId_simps [simp]:
  "post_id (withId d i) = i"
  "likedBy (withId d i) = likedBy d"
  "dislikedBy (withId d i) = dislikedBy d"
  "likeCount (withId d i) = likeCount d"
  "dislikeCount (withId d i) = dislikeCount d"
  "commentCount (withId d i) = commentCount d"
  "createdAt (withId d i) = createdAt d"
  by (simp_all add: withId_def postDraft.defs post.defs)

lemma react_post_id [simp]: "post_id (react u r p) = post_id p"
  by (cases r) (simp_all add: react_def other_def Let_def)

lemma react_commentCount [simp]: "commentCount (react u r p) = commentCount p"
  by (cases r) (simp_all add: react_def other_def Let_def)

lemma react_sameOutside: "sameOutsideReactions p (react u r p)"
  by (cases r) (simp_all add: react_def other_def Let_def sameOutsideReactions_def)

lemma sameOutside_refl: "sameOutsideReactions p p"
  by (simp add: sameOutsideReactions_def)

lemma react_atMostOne: "atMostOne v p \<Longrightarrow> atMostOne v (react u r p)"
  by (cases r) (auto simp: react_def other_def Let_def atMostOne_def)

text \<open>The reaction arrays never get a user twice, so they stay duplicate-free.\<close>

lemma react_distinct:
  "distinct (likedBy p) \<Longrightarrow> distinct (dislikedBy p) \<Longrightarrow>
   distinct (likedBy (react u r p)) \<and> distinct (dislikedBy (react u r p))"
  by (cases r) (auto simp: react_def other_def Let_def)

lemma card_remove_user:
  assumes "u \<in> set xs"
  shows "max 0 (int (card (set xs)) - 1) = int (card (set (filter (\<lambda>i. i \<noteq> u) xs)))"
proof -
  have "set (filter (\<lambda>i. i \<noteq> u) xs) = set xs - {u}" by auto
  moreover have "0 < card (set xs)" using assms by (auto simp: card_gt_0_iff)
  ultimately show ?thesis using assms by (simp add: card_Diff_singleton)
qed

lemma react_countsOk: "countsOk p \<Longrightarrow> countsOk (react u r p)"
  by (cases r) (auto simp: react_def other_def Let_def countsOk_def card_remove_user)

lemma countsOk_commentCount [simp]: "countsOk (p\<lparr>commentCount := n\<rparr>) = countsOk p"
  by (simp add: countsOk_def)

lemma react_twice:
  assumes "u \<notin> set (getBy (other r) p)"
    and "(if u \<in> set (getBy r p) then 1 else 0) \<le> getCount r p"
  shows "set (likedBy (react u r (react u r p))) = set (likedBy p)"
    and "set (dislikedBy (react u r (react u r p))) = set (dislikedBy p)"
    and "likeCount (react u r (react u r p)) = likeCount p"
    and "dislikeCount (react u r (react u r p)) = dislikeCount p"
proof -
  show "set (likedBy (react u r (react u r p))) = set (likedBy p)"
    using assms(1) by (cases r) (auto simp: react_def other_def Let_def)
  show "set (dislikedBy (react u r (react u r p))) = set (dislikedBy p)"
    using assms(1) by (cases r) (auto simp: react_def other_def Let_def)
  show "likeCount (react u r (react u r p)) = likeCount p"
    using assms by (cases r) (auto simp: react_def other_def Let_def split: if_splits)
  show "dislikeCount (react u r (react u r p)) = dislikeCount p"
    using assms by (cases r) (auto simp: react_def other_def Let_def split: if_splits)
qed

subsection \<open>The operations on the store\<close>

text \<open>Both branches of \<open>toggleReaction\<close> are the same update: without a match nothing changes.\<close>

lemma toggleReaction_Inr:
  "toggleReaction s postId userId r =
     Inr (s\<lparr>stubPosts := updateFirst (\<lambda>p. post_id p = postId) (react userId r) (stubPosts s)\<rparr>)"
proof (cases "find (\<lambda>p. post_id p = postId) (stubPosts s)")
  case None
  then have "updateFirst (\<lambda>p. post_id p = postId) (react userId r) (stubPosts s) = stubPosts s"
    by (intro updateFirst_none) (simp add: find_None_iff)
  then show ?thesis using None by (simp add: toggleReaction_def)
next
  case (Some a)
  then show ?thesis by (simp add: toggleReaction_def)
qed

lemma exec_toggle:
  "exec s (ToggleReaction postId userId r) =
     s\<lparr>stubPosts := updateFirst (\<lambda>p. post_id p = postId) (react userId r) (stubPosts s)\<rparr>"
  by (simp add: exec_def toggleReaction_Inr)

lemma exec_toggle_nth:
  assumes "i < length (stubPosts s)" and "atMostOne u (stubPosts s ! i)"
  shows "i < length (stubPosts (exec s (ToggleReaction postId userId r)))
       \<and> post_id (stubPosts (exec s (ToggleReaction postId userId r)) ! i) = post_id (stubPosts s ! i)
       \<and> atMostOne u (stubPosts (exec s (ToggleReaction postId userId r)) ! i)"
  using assms nth_updateFirst [of i "stubPosts s" "\<lambda>p. post_id p = postId" "react userId r"]
  by (auto simp: exec_toggle react_atMostOne)

lemma find_after_toggle:
  "find (\<lambda>p. post_id p = postId) (stubPosts s) = Some p \<Longrightarrow>
   \<exists>s'. toggleReaction s postId userId r = Inr s' \<and>
        find (\<lambda>p. post_id p = postId) (stubPosts s') = Some (react userId r p)"
  by (simp add: toggleReaction_Inr find_updateFirst)

lemma addComment_Inr:
  assumes "\<not> inheritedKey postId"
  shows "addComment s postId c now =
     Inr (s\<lparr>stubComments := (stubComments s)(postId \<mapsto>
                storedComments s postId @ [withCommentId c (''cmt_'' @ showNat now)]),
            stubPosts := updateFirst (\<lambda>p. post_id p = postId)
                (\<lambda>p. p\<lparr>commentCount := int (Suc (length (storedComments s postId)))\<rparr>)
                (stubPosts s)\<rparr>)"
proof (cases "find (\<lambda>p. post_id p = postId) (stubPosts s)")
  case None
  then have "updateFirst (\<lambda>p. post_id p = postId)
                (\<lambda>p. p\<lparr>commentCount := int (Suc (length (storedComments s postId)))\<rparr>)
                (stubPosts s) = stubPosts s"
    by (intro updateFirst_none) (simp add: find_None_iff)
  then show ?thesis using None assms
    by (simp add: addComment_def Let_def storedComments_def)
next
  case (Some a)
  then show ?thesis using assms
    by (simp add: addComment_def Let_def storedComments_def)
qed

lemma addComment_posts:
  assumes "addComment s postId c now = Inr s'"
  shows "\<exists>n. stubPosts s' =
           updateFirst (\<lambda>p. post_id p = postId) (\<lambda>p. p\<lparr>commentCount := n\<rparr>) (stubPosts s)"
proof (cases "find (\<lambda>p. post_id p = postId) (stubPosts s)")
  case None
  then have "updateFirst (\<lambda>p. post_id p = postId) (\<lambda>p. p\<lparr>commentCount := 0\<rparr>) (stubPosts s)
               = stubPosts s"
    by (intro updateFirst_none) (simp add: find_None_iff)
  moreover have "stubPosts s' = stubPosts s"
    using assms None by (auto simp: addComment_def Let_def split: if_splits)
  ultimately show ?thesis by metis
next
  case (Some a)
  then show ?thesis using assms by (auto simp: addComment_def Let_def split: if_splits)
qed

text \<open>
  Every store the feed builds from zero-initialised drafts has the counters of the data
  model on all its posts.
\<close>

lemma exec_keeps_counts:
  assumes "\<forall>p \<in> set (stubPosts s). countsOk p" and "zeroDrafts x"
  shows "\<forall>p \<in> set (stubPosts (exec s x)). countsOk p"
proof (cases x)
  case (CreatePost d now)
  with assms show ?thesis
    by (simp add: exec_def createPost_def Let_def countsOk_def zeroInitialized_def)
next
  case (ToggleReaction postId userId r)
  show ?thesis
  proof
    fix q assume "q \<in> set (stubPosts (exec s x))"
    then have "q \<in> set (updateFirst (\<lambda>p. post_id p = postId) (react userId r) (stubPosts s))"
      by (simp add: ToggleReaction exec_toggle)
    then have "q \<in> set (stubPosts s) \<or> q \<in> react userId r ` set (stubPosts s)"
      by (rule set_updateFirst)
    with assms(1) show "countsOk q" by (auto simp: react_countsOk)
  qed
next
  case (AddComment postId c now)
  show ?thesis
  proof (cases "addComment s postId c now")
    case (Inl e)
    with assms(1) show ?thesis by (simp add: AddComment exec_def)
  next
    case (Inr s')
    from addComment_posts [OF Inr] obtain n where n:
      "stubPosts s' =
         updateFirst (\<lambda>p. post_id p = postId) (\<lambda>p. p\<lparr>commentCount := n\<rparr>) (stubPosts s)"
      by blast
    show ?thesis
    proof
      fix q assume "q \<in> set (stubPosts (exec s x))"
      then have "q \<in> set (updateFirst (\<lambda>p. post_id p = postId)
                             (\<lambda>p. p\<lparr>commentCount := n\<rparr>) (stubPosts s))"
        by (simp add: AddComment exec_def Inr n)
      then have "q \<in> set (stubPosts s) \<or>
                 q \<in> (\<lambda>p. p\<lparr>commentCount := n\<rparr>) ` set (stubPosts s)"
        by (rule set_updateFirst)
      with assms(1) show "countsOk q" by auto
    qed
  qed
qed

lemma run_keeps_counts:
  "\<forall>p \<in> set (stubPosts s). countsOk p \<Longrightarrow> list_all zeroDrafts xs \<Longrightarrow>
   \<forall>p \<in> set (stubPosts (run s xs)). countsOk p"
proof (induction xs arbitrary: s)
  case Nil
  then show ?case by simp
next
  case (Cons x xs)
  from Cons.prems(2) have x: "zeroDrafts x" and xs: "list_all zeroDrafts xs" by simp_all
  from Cons.prems(1) x have "\<forall>p \<in> set (stubPosts (exec s x)). countsOk p"
    by (rule exec_keeps_counts)
  with Cons.IH [of "exec s x"] xs show ?case by simp
qed

lemma reachable_countsOk:
  "list_all zeroDrafts xs \<Longrightarrow> p \<in> set (stubPosts (run initialStore xs)) \<Longrightarrow> countsOk p"
  using run_keeps_counts [of initialStore xs] by (simp add: initialStore_def)

text \<open>A post that \<open>createPost\<close> has stored is in the next feed read.\<close>

lemma createPost_visible:
  "fst (createPost s d now) = ''post_'' @ showNat now \<and>
   withId d (''post_'' @ showNat now) \<in> set (fetchPosts (snd (createPost s d now)))"
proof -
  have "set (fetchPosts (snd (createPost s d now))) =
        set_mset (mset (fetchPosts (snd (createPost s d now))))" by simp
  also have "\<dots> = set (stubPosts (snd (createPost s d now)))"
    by (simp add: fetchPosts_def)
  finally show ?thesis by (simp add: createPost_def Let_def)
qed

subsection \<open>The invariant of admissible sequences\<close>

lemma feedInv_initial: "feedInv initialStore"
  by (simp add: feedInv_def initialStore_def)

lemma post_key_not_inherited: "\<not> inheritedKey (''post_'' @ x)"
  by (simp add: inheritedKey_def objectPrototypeKeys_def)

lemma feedInv_createPost:
  assumes "feedInv s" and "commentCount d = 0"
    and "(''post_'' @ showNat now) \<notin> post_id ` set (stubPosts s)"
  shows "feedInv (snd (createPost s d now))"
proof -
  let ?i = "''post_'' @ showNat now"
  have none: "stubComments s ?i = None" using assms(1,3) by (auto simp: feedInv_def)
  then have "storedComments s ?i = []" by (simp add: storedComments_def)
  then show ?thesis
    using assms(1,2,3) post_key_not_inherited [of "showNat now"]
    by (auto simp: feedInv_def createPost_def Let_def storedComments_def)
qed

lemma feedInv_toggle:
  assumes "feedInv s"
  shows "feedInv (exec s (ToggleReaction postId userId r))"
proof -
  let ?s' = "exec s (ToggleReaction postId userId r)"
  have d: "distinct (map post_id (stubPosts s))" using assms by (simp add: feedInv_def)
  have ps: "stubPosts ?s' =
        map (\<lambda>p. if post_id p = postId then react userId r p else p) (stubPosts s)"
    by (simp add: exec_toggle updateFirst_distinct [OF d])
  have cs: "stubComments ?s' = stubComments s"
    by (simp add: exec_toggle)
  have ids: "map post_id (stubPosts ?s') = map post_id (stubPosts s)"
    by (simp add: ps)
  have ids': "post_id ` set (stubPosts ?s') = post_id ` set (stubPosts s)"
    using arg_cong [OF ids, of set] by (simp only: set_map)
  have sc: "storedComments ?s' k = storedComments s k" for k
    by (simp add: storedComments_def cs)
  have "\<forall>p \<in> set (stubPosts ?s'). commentCount p = int (length (storedComments ?s' (post_id p)))"
    using assms by (auto simp: ps sc feedInv_def)
  moreover have "\<forall>p \<in> set (stubPosts ?s'). \<not> inheritedKey (post_id p)"
    using assms by (auto simp: ps feedInv_def)
  moreover have "\<forall>k. stubComments ?s' k \<noteq> None \<longrightarrow> k \<in> post_id ` set (stubPosts ?s')"
    unfolding ids' cs using assms by (simp add: feedInv_def)
  ultimately show ?thesis unfolding feedInv_def ids using d by blast
qed

lemma feedInv_addComment:
  assumes "feedInv s" and "postId \<in> post_id ` set (stubPosts s)"
  shows "feedInv (exec s (AddComment postId c now))"
proof -
  have d: "distinct (map post_id (stubPosts s))" using assms by (simp add: feedInv_def)
  have nk: "\<not> inheritedKey postId" using assms by (auto simp: feedInv_def)
  let ?s' = "exec s (AddComment postId c now)"
  have ps: "stubPosts ?s' =
        map (\<lambda>p. if post_id p = postId
                  then p\<lparr>commentCount := int (Suc (length (storedComments s postId)))\<rparr>
                  else p) (stubPosts s)"
    by (simp add: exec_def addComment_Inr [OF nk] updateFirst_distinct [OF d])
  have cs: "stubComments ?s' = (stubComments s)(postId \<mapsto>
                 storedComments s postId @ [withCommentId c (''cmt_'' @ showNat now)])"
    by (simp add: exec_def addComment_Inr [OF nk])
  have ids: "map post_id (stubPosts ?s') = map post_id (stubPosts s)"
    by (simp add: ps)
  have ids': "post_id ` set (stubPosts ?s') = post_id ` set (stubPosts s)"
    using arg_cong [OF ids, of set] by (simp only: set_map)
  have sc: "storedComments ?s' k = (if k = postId
              then storedComments s postId @ [withCommentId c (''cmt_'' @ showNat now)]
              else storedComments s k)" for k
    by (simp add: storedComments_def cs)
  have "\<forall>p \<in> set (stubPosts ?s'). commentCount p = int (length (storedComments ?s' (post_id p)))"
    using assms(1) by (auto simp: ps sc feedInv_def)
  moreover have "\<forall>p \<in> set (stubPosts ?s'). \<not> inheritedKey (post_id p)"
    using assms(1) by (auto simp: ps feedInv_def)
  moreover have "\<forall>k. stubComments ?s' k \<noteq> None \<longrightarrow> k \<in> post_id ` set (stubPosts ?s')"
    unfolding ids' using assms by (auto simp: cs feedInv_def)
  ultimately show ?thesis unfolding feedInv_def ids using d by blast
qed

lemma feedInv_exec:
  assumes "feedInv s" and "admissible s x"
  shows "feedInv (exec s x)"
proof (cases x)
  case (CreatePost d now)
  with assms show ?thesis using feedInv_createPost [of s d now] by (simp add: exec_def)
next
  case (ToggleReaction postId userId r)
  with assms show ?thesis by (simp add: feedInv_toggle)
next
  case (AddComment postId c now)
  with assms show ?thesis by (simp add: feedInv_addComment)
qed

lemma feedInv_run: "feedInv s \<Longrightarrow> admissibleSeq s xs \<Longrightarrow> feedInv (run s xs)"
  by (induction xs arbitrary: s) (auto simp: feedInv_exec)

lemma feedInv_commentCountOk:
  assumes "feedInv s" and "p \<in> set (stubPosts s)"
  shows "commentCountOk s p"
proof (cases "stubComments s (post_id p)")
  case None
  moreover have "\<not> inheritedKey (post_id p)" using assms by (simp add: feedInv_def)
  moreover have "commentCount p = 0"
    using assms None by (simp add: feedInv_def storedComments_def)
  ultimately show ?thesis by (simp add: commentCountOk_def fetchComments_def)
next
  case (Some cs)
  moreover have "commentCount p = int (length cs)"
    using assms Some by (simp add: feedInv_def storedComments_def)
  ultimately show ?thesis by (simp add: commentCountOk_def fetchComments_def Let_def)
qed

section \<open>The claims\<close>

text \<open>
  Claim C1 (mutual exclusion). Take the post at any position \<open>i\<close> of the store and any
  user \<open>u\<close> that is not in both reaction sets of that post (in particular a user in
  neither). After any sequence of \<^verbatim>\<open>toggleReaction\<close> calls, on any posts, by any users,
  with any reactions, the same post stands at position \<open>i\<close> and \<open>u\<close> is in at most one of
  its \<^verbatim>\<open>likedBy\<close> and \<^verbatim>\<open>dislikedBy\<close>.
\<close>

theorem toggleReaction_mutual_exclusion:
  assumes "i < length (stubPosts s)" and "atMostOne u (stubPosts s ! i)"
  shows "i < length (stubPosts (run s (toggles ts)))
       \<and> post_id (stubPosts (run s (toggles ts)) ! i) = post_id (stubPosts s ! i)
       \<and> atMostOne u (stubPosts (run s (toggles ts)) ! i)"
  using assms
proof (induction ts arbitrary: s)
  case Nil
  then show ?case by (simp add: toggles_def)
next
  case (Cons t ts)
  obtain postId userId r where t: "t = (postId, userId, r)" by (cases t) auto
  let ?s1 = "exec s (ToggleReaction postId userId r)"
  have one: "i < length (stubPosts ?s1)
       \<and> post_id (stubPosts ?s1 ! i) = post_id (stubPosts s ! i)
       \<and> atMostOne u (stubPosts ?s1 ! i)"
    using Cons.prems by (rule exec_toggle_nth)
  have unfold: "run s (toggles (t # ts)) = run ?s1 (toggles ts)"
    by (simp add: toggles_def t)
  from Cons.IH [of ?s1] one show ?case by (simp add: unfold)
qed

theorem toggleReaction_mutual_exclusion_witness:
  "0 < length (stubPosts demoStore)
   \<and> ''u2'' \<notin> set (likedBy (stubPosts demoStore ! 0))
   \<and> ''u2'' \<notin> set (dislikedBy (stubPosts demoStore ! 0))
   \<and> atMostOne ''u2''
       (stubPosts (run demoStore (toggles [(''post_1000'', ''u2'', like),
          (''post_1000'', ''u2'', dislike), (''post_1000'', ''u2'', dislike)])) ! 0)"
proof -
  have h1: "0 < length (stubPosts demoStore)" by code_simp
  have h2: "''u2'' \<notin> set (likedBy (stubPosts demoStore ! 0))" by code_simp
  have h3: "''u2'' \<notin> set (dislikedBy (stubPosts demoStore ! 0))" by code_simp
  from h2 have h4: "atMostOne ''u2'' (stubPosts demoStore ! 0)" by (simp add: atMostOne_def)
  from toggleReaction_mutual_exclusion [OF h1 h4] h1 h2 h3 show ?thesis by blast
qed

text \<open>
  Claim C2 (counters and cardinalities). If every post of the store has
  \<^verbatim>\<open>likeCount\<close> equal to the number of users in \<^verbatim>\<open>likedBy\<close> and \<^verbatim>\<open>dislikeCount\<close>
  equal to the number of users in \<^verbatim>\<open>dislikedBy\<close>, then so has every post of the store
  after one operation: a \<^verbatim>\<open>toggleReaction\<close>, an \<^verbatim>\<open>addComment\<close> (whether it returns or
  throws), or a \<^verbatim>\<open>createPost\<close> with a zero-initialised draft.
\<close>

theorem counts_preserved:
  assumes "list_all countsOk (stubPosts s)" and "zeroDrafts x"
  shows "list_all countsOk (stubPosts (exec s x))"
proof (cases x)
  case (CreatePost d now)
  with assms(2) have "countsOk (withId d (''post_'' @ showNat now))"
    by (simp add: countsOk_def zeroInitialized_def)
  with assms(1) show ?thesis
    by (simp add: CreatePost exec_def createPost_def Let_def)
next
  case (ToggleReaction postId userId r)
  have "countsOk p" if "p \<in> set (stubPosts (exec s x))" for p
  proof -
    from that have "p \<in> set (stubPosts s) \<or> p \<in> react userId r ` set (stubPosts s)"
      using set_updateFirst [of p "\<lambda>p. post_id p = postId" "react userId r" "stubPosts s"]
      by (simp add: ToggleReaction exec_toggle)
    with assms(1) show ?thesis by (auto simp: react_countsOk list_all_iff)
  qed
  then show ?thesis by (simp add: list_all_iff)
next
  case (AddComment postId c now)
  show ?thesis
  proof (cases "addComment s postId c now")
    case (Inl e)
    with assms(1) show ?thesis by (simp add: AddComment exec_def)
  next
    case (Inr s')
    from addComment_posts [OF Inr] obtain n where
      n: "stubPosts s' =
            updateFirst (\<lambda>p. post_id p = postId) (\<lambda>p. p\<lparr>commentCount := n\<rparr>) (stubPosts s)"
      by blast
    have "countsOk p" if "p \<in> set (stubPosts (exec s x))" for p
    proof -
      from that
      have "p \<in> set (stubPosts s) \<or> p \<in> (\<lambda>p. p\<lparr>commentCount := n\<rparr>) ` set (stubPosts s)"
        using set_updateFirst [of p "\<lambda>p. post_id p = postId" "\<lambda>p. p\<lparr>commentCount := n\<rparr>"
                "stubPosts s"]
        by (simp add: AddComment exec_def Inr n)
      with assms(1) show ?thesis by (auto simp: list_all_iff)
    qed
    then show ?thesis by (simp add: list_all_iff)
  qed
qed

theorem counts_preserved_witness:
  "list_all countsOk (stubPosts dislikedStore)
   \<and> zeroDrafts (CreatePost olderDraft 1001)
   \<and> list_all countsOk (stubPosts (exec dislikedStore (CreatePost olderDraft 1001)))"
proof -
  have h1: "list_all countsOk (stubPosts dislikedStore)" by code_simp
  have h2: "zeroDrafts (CreatePost olderDraft 1001)" by code_simp
  from counts_preserved [OF h1 h2] h1 h2 show ?thesis by blast
qed

text \<open>
  Claim C3 (reaction on a missing post), as the code has it. The claim says the call
  signals \<open>NotFound\<close>; the code returns normally. On the empty store
  \<^verbatim>\<open>toggleReaction("missing-id", "u1", "like")\<close> returns without an error and leaves the
  store as it was.
\<close>

theorem toggleReaction_missing_counterexample:
  "toggleReaction initialStore ''missing-id'' ''u1'' like = Inr initialStore
   \<and> toggleReaction initialStore ''missing-id'' ''u1'' like \<noteq> Inl NotFound"
  by (simp add: toggleReaction_def initialStore_def)

text \<open>
  Claim C3, amended: for every post id that no post of the store has, and every user and
  reaction, \<^verbatim>\<open>toggleReaction\<close> returns normally and the store is unchanged.
\<close>

theorem toggleReaction_missing_noop:
  assumes "postId \<notin> post_id ` set (stubPosts s)"
  shows "toggleReaction s postId userId r = Inr s"
proof -
  from assms have "find (\<lambda>p. post_id p = postId) (stubPosts s) = None"
    by (auto simp: find_None_iff)
  then show ?thesis by (simp add: toggleReaction_def)
qed

theorem toggleReaction_missing_noop_witness:
  "''missing-id'' \<notin> post_id ` set (stubPosts demoStore)
   \<and> toggleReaction demoStore ''missing-id'' ''u1'' like = Inr demoStore"
proof -
  have h: "''missing-id'' \<notin> post_id ` set (stubPosts demoStore)" by code_simp
  from toggleReaction_missing_noop [OF h] h show ?thesis by blast
qed

text \<open>
  Claim C4 (the same reaction twice), as the code has it. The claim says two equal calls
  in a row restore the reaction state of the user whatever it was. Where the user holds
  the opposite reaction they do not: \<open>u2\<close> dislikes the post, and after two
  \<^verbatim>\<open>toggleReaction(post, u2, "like")\<close> calls \<open>u2\<close> is in neither set and
  \<^verbatim>\<open>dislikeCount\<close> has gone from 1 to 0. Nor do they where the counter is too small for
  the decrement, which stops at 0: with \<open>u2\<close> in \<^verbatim>\<open>dislikedBy\<close> and
  \<^verbatim>\<open>dislikeCount\<close> 0, two \<^verbatim>\<open>toggleReaction(post, u2, "dislike")\<close> calls end with
  \<^verbatim>\<open>dislikeCount\<close> 1.
\<close>

theorem toggle_twice_counterexample:
  "map reactionState (stubPosts dislikedStore) = [([], [''u2''], 0, 1)]
   \<and> map reactionState
        (stubPosts (run dislikedStore
           (toggles [(''post_1000'', ''u2'', like), (''post_1000'', ''u2'', like)])))
       = [([], [], 0, 0)]
   \<and> map reactionState (stubPosts staleStore) = [([], [''u2''], 0, 0)]
   \<and> map reactionState
        (stubPosts (run staleStore
           (toggles [(''post_1000'', ''u2'', dislike), (''post_1000'', ''u2'', dislike)])))
       = [([], [''u2''], 0, 1)]"
  by code_simp

text \<open>
  Claim C4, amended: for a post that is in the store, a reaction \<open>r\<close> and a user who
  does not hold the reaction opposite to \<open>r\<close>, where the counter of \<open>r\<close> is at least 1
  if the user holds \<open>r\<close> and at least 0 if not (as the counter invariant gives), two
  \<^verbatim>\<open>toggleReaction\<close> calls with \<open>r\<close> in a row restore both reaction sets (as sets) and
  both counters of the post.
\<close>

theorem toggle_twice_restores:
  assumes "find (\<lambda>p. post_id p = postId) (stubPosts s) = Some p"
    and "userId \<notin> set (getBy (other r) p)"
    and "(if userId \<in> set (getBy r p) then 1 else 0) \<le> getCount r p"
  shows "\<exists>s1 s2 p2. toggleReaction s postId userId r = Inr s1 \<and>
           toggleReaction s1 postId userId r = Inr s2 \<and>
           find (\<lambda>p. post_id p = postId) (stubPosts s2) = Some p2 \<and>
           set (likedBy p2) = set (likedBy p) \<and> set (dislikedBy p2) = set (dislikedBy p) \<and>
           likeCount p2 = likeCount p \<and> dislikeCount p2 = dislikeCount p"
proof -
  from find_after_toggle [OF assms(1)] obtain s1 where
    s1: "toggleReaction s postId userId r = Inr s1"
        "find (\<lambda>p. post_id p = postId) (stubPosts s1) = Some (react userId r p)"
    by blast
  from find_after_toggle [OF s1(2)] obtain s2 where
    s2: "toggleReaction s1 postId userId r = Inr s2"
        "find (\<lambda>p. post_id p = postId) (stubPosts s2) = Some (react userId r (react userId r p))"
    by blast
  from s1(1) s2 react_twice [OF assms(2,3)] show ?thesis by blast
qed

theorem toggle_twice_restores_witness:
  "find (\<lambda>p. post_id p = ''post_1000'') (stubPosts dislikedStore) = Some (stubPosts dislikedStore ! 0)
   \<and> ''u2'' \<notin> set (getBy (other dislike) (stubPosts dislikedStore ! 0))
   \<and> (if ''u2'' \<in> set (getBy dislike (stubPosts dislikedStore ! 0)) then 1 else 0)
        \<le> getCount dislike (stubPosts dislikedStore ! 0)
   \<and> (\<exists>s1 s2 p2. toggleReaction dislikedStore ''post_1000'' ''u2'' dislike = Inr s1 \<and>
           toggleReaction s1 ''post_1000'' ''u2'' dislike = Inr s2 \<and>
           find (\<lambda>p. post_id p = ''post_1000'') (stubPosts s2) = Some p2 \<and>
           set (likedBy p2) = set (likedBy (stubPosts dislikedStore ! 0)) \<and>
           set (dislikedBy p2) = set (dislikedBy (stubPosts dislikedStore ! 0)) \<and>
           likeCount p2 = likeCount (stubPosts dislikedStore ! 0) \<and>
           dislikeCount p2 = dislikeCount (stubPosts dislikedStore ! 0))"
proof -
  have h1: "find (\<lambda>p. post_id p = ''post_1000'') (stubPosts dislikedStore)
              = Some (stubPosts dislikedStore ! 0)" by code_simp
  have h2: "''u2'' \<notin> set (getBy (other dislike) (stubPosts dislikedStore ! 0))" by code_simp
  have h3: "(if ''u2'' \<in> set (getBy dislike (stubPosts dislikedStore ! 0)) then 1 else 0)
              \<le> getCount dislike (stubPosts dislikedStore ! 0)" by code_simp
  from toggle_twice_restores [OF h1 h2 h3] h1 h2 h3 show ?thesis by blast
qed

text \<open>
  Claim C5 (switch law). Take a post that is in the store, with the counters of the data
  model (each equal to the size of its reaction set, as on every store the feed builds),
  and a user who is in \<^verbatim>\<open>dislikedBy\<close> and not in \<^verbatim>\<open>likedBy\<close>. Then
  \<^verbatim>\<open>toggleReaction(post, user, "like")\<close> leaves the user in \<^verbatim>\<open>likedBy\<close> and not in
  \<^verbatim>\<open>dislikedBy\<close>, with \<^verbatim>\<open>dislikeCount\<close> one less and \<^verbatim>\<open>likeCount\<close> one more.
\<close>

theorem switch_law:
  assumes "find (\<lambda>p. post_id p = postId) (stubPosts s) = Some p"
    and "userId \<in> set (dislikedBy p)" and "userId \<notin> set (likedBy p)"
    and "countsOk p"
  shows "\<exists>s' p'. toggleReaction s postId userId like = Inr s' \<and>
           find (\<lambda>p. post_id p = postId) (stubPosts s') = Some p' \<and>
           userId \<in> set (likedBy p') \<and> userId \<notin> set (dislikedBy p') \<and>
           dislikeCount p' = dislikeCount p - 1 \<and> likeCount p' = likeCount p + 1"
proof -
  from find_after_toggle [OF assms(1)] obtain s' where
    s': "toggleReaction s postId userId like = Inr s'"
        "find (\<lambda>p. post_id p = postId) (stubPosts s') = Some (react userId like p)"
    by blast
  have pos: "1 \<le> dislikeCount p"
  proof -
    have "0 < card (set (dislikedBy p))" using assms(2) by (auto simp: card_gt_0_iff)
    with assms(4) show ?thesis by (simp add: countsOk_def)
  qed
  have "userId \<in> set (likedBy (react userId like p))"
       "userId \<notin> set (dislikedBy (react userId like p))"
       "dislikeCount (react userId like p) = dislikeCount p - 1"
       "likeCount (react userId like p) = likeCount p + 1"
    using assms(2,3) pos by (simp_all add: react_def other_def Let_def)
  with s' show ?thesis by blast
qed

theorem switch_law_witness:
  "find (\<lambda>p. post_id p = ''post_1000'') (stubPosts dislikedStore) = Some (stubPosts dislikedStore ! 0)
   \<and> ''u2'' \<in> set (dislikedBy (stubPosts dislikedStore ! 0))
   \<and> ''u2'' \<notin> set (likedBy (stubPosts dislikedStore ! 0))
   \<and> countsOk (stubPosts dislikedStore ! 0)
   \<and> (\<exists>s' p'. toggleReaction dislikedStore ''post_1000'' ''u2'' like = Inr s' \<and>
           find (\<lambda>p. post_id p = ''post_1000'') (stubPosts s') = Some p' \<and>
           ''u2'' \<in> set (likedBy p') \<and> ''u2'' \<notin> set (dislikedBy p') \<and>
           dislikeCount p' = dislikeCount (stubPosts dislikedStore ! 0) - 1 \<and>
           likeCount p' = likeCount (stubPosts dislikedStore ! 0) + 1)"
proof -
  have h1: "find (\<lambda>p. post_id p = ''post_1000'') (stubPosts dislikedStore)
              = Some (stubPosts dislikedStore ! 0)" by code_simp
  have h2: "''u2'' \<in> set (dislikedBy (stubPosts dislikedStore ! 0))" by code_simp
  have h3: "''u2'' \<notin> set (likedBy (stubPosts dislikedStore ! 0))" by code_simp
  have h4: "countsOk (stubPosts dislikedStore ! 0)" by code_simp
  from switch_law [OF h1 h2 h3 h4] h1 h2 h3 h4 show ?thesis by blast
qed

text \<open>
  Claim C6 (errors of \<^verbatim>\<open>addComment\<close>), as the code has it. The claim says the call
  fails with \<open>NotFound\<close> on a missing post and with \<open>EmptyText\<close> on blank text, and
  changes nothing then. The code has neither check. On the empty store
  \<^verbatim>\<open>addComment("missing-id", ...)\<close> returns normally and the comment is in the log of
  \<open>missing-id\<close> afterwards; with the text of three blanks, whose trimmed form is empty,
  it returns normally and stores the blank comment.
\<close>

theorem addComment_errors_counterexample:
  "addComment initialStore ''missing-id'' demoComment 5 \<noteq> Inl NotFound
   \<and> storedComments initialStore ''missing-id'' = []
   \<and> map comment_text
        (storedComments (exec initialStore (AddComment ''missing-id'' demoComment 5)) ''missing-id'')
       = [''Nice tip'']
   \<and> trim (comment_text blankComment) = []
   \<and> addComment demoStore ''post_1000'' blankComment 5 \<noteq> Inl EmptyText
   \<and> map comment_text
        (storedComments (exec demoStore (AddComment ''post_1000'' blankComment 5)) ''post_1000'')
       = [''   '']"
proof -
  have k1: "\<not> inheritedKey ''missing-id''" by code_simp
  have k2: "\<not> inheritedKey ''post_1000''" by code_simp
  have a: "addComment initialStore ''missing-id'' demoComment 5 \<noteq> Inl NotFound"
    by (simp add: addComment_Inr [OF k1])
  have b: "storedComments initialStore ''missing-id'' = []" by code_simp
  have c: "map comment_text
        (storedComments (exec initialStore (AddComment ''missing-id'' demoComment 5)) ''missing-id'')
       = [''Nice tip'']" by code_simp
  have d: "trim (comment_text blankComment) = []" by code_simp
  have e: "addComment demoStore ''post_1000'' blankComment 5 \<noteq> Inl EmptyText"
    by (simp add: addComment_Inr [OF k2])
  have f: "map comment_text
        (storedComments (exec demoStore (AddComment ''post_1000'' blankComment 5)) ''post_1000'')
       = [''   '']" by code_simp
  show ?thesis by (intro conjI a b c d e f)
qed

text \<open>
  Claim C6, amended. For a post id that is not a property name of \<^verbatim>\<open>Object.prototype\<close>,
  \<^verbatim>\<open>addComment\<close> returns normally, whatever the text and whether or not the post is in
  the store. It appends the comment, with the id \<^verbatim>\<open>cmt_<clock>\<close>, to the log of that
  post id and leaves every other log alone. If no post has the id the posts are unchanged;
  otherwise the first post with the id gets the length of its log as \<^verbatim>\<open>commentCount\<close>.
  Blank text is screened by the caller \<^verbatim>\<open>send\<close> alone: when the trimmed text is empty it
  returns normally and the store is unchanged.
\<close>

theorem addComment_behaviour:
  assumes "\<not> inheritedKey postId"
  shows "\<exists>s'. addComment s postId c now = Inr s' \<and>
     stubComments s' postId =
       Some (storedComments s postId @ [withCommentId c (''cmt_'' @ showNat now)]) \<and>
     (\<forall>k. k \<noteq> postId \<longrightarrow> stubComments s' k = stubComments s k) \<and>
     (postId \<notin> post_id ` set (stubPosts s) \<longrightarrow> stubPosts s' = stubPosts s) \<and>
     (\<forall>p. find (\<lambda>p. post_id p = postId) (stubPosts s) = Some p \<longrightarrow>
          find (\<lambda>p. post_id p = postId) (stubPosts s') =
            Some (p\<lparr>commentCount := int (length (storedComments s' postId))\<rparr>)) \<and>
     (trim text = [] \<longrightarrow> send s postId userId userName text now1 now2 = Inr s)"
proof -
  let ?f = "\<lambda>p::post. p\<lparr>commentCount := int (Suc (length (storedComments s postId)))\<rparr>"
  let ?s' = "s\<lparr>stubComments := (stubComments s)(postId \<mapsto>
                  storedComments s postId @ [withCommentId c (''cmt_'' @ showNat now)]),
               stubPosts := updateFirst (\<lambda>p. post_id p = postId) ?f (stubPosts s)\<rparr>"
  have r: "addComment s postId c now = Inr ?s'" using assms by (rule addComment_Inr)
  have a: "stubComments ?s' postId =
       Some (storedComments s postId @ [withCommentId c (''cmt_'' @ showNat now)])" by simp
  have b: "\<forall>k. k \<noteq> postId \<longrightarrow> stubComments ?s' k = stubComments s k" by simp
  have c: "postId \<notin> post_id ` set (stubPosts s) \<longrightarrow> stubPosts ?s' = stubPosts s"
    by (auto intro: updateFirst_none)
  have len: "length (storedComments ?s' postId) = Suc (length (storedComments s postId))"
    by (simp add: storedComments_def)
  have d: "\<forall>p. find (\<lambda>p. post_id p = postId) (stubPosts s) = Some p \<longrightarrow>
          find (\<lambda>p. post_id p = postId) (stubPosts ?s') =
            Some (p\<lparr>commentCount := int (length (storedComments ?s' postId))\<rparr>)"
    by (simp only: len) (simp add: find_updateFirst)
  have e: "trim text = [] \<longrightarrow> send s postId userId userName text now1 now2 = Inr s"
    by (simp add: send_def)
  from r a b c d e show ?thesis by blast
qed

theorem addComment_behaviour_witness:
  "\<not> inheritedKey ''post_1000''
   \<and> find (\<lambda>p. post_id p = ''post_1000'') (stubPosts demoStore) = Some (stubPosts demoStore ! 0)
   \<and> ''missing-id'' \<noteq> ''post_1000''
   \<and> trim ''   '' = []
   \<and> (\<exists>s'. addComment demoStore ''post_1000'' demoComment 2000 = Inr s' \<and>
        stubComments s' ''post_1000'' =
          Some (storedComments demoStore ''post_1000'' @
                  [withCommentId demoComment (''cmt_'' @ showNat 2000)]) \<and>
        stubComments s' ''missing-id'' = stubComments demoStore ''missing-id'' \<and>
        find (\<lambda>p. post_id p = ''post_1000'') (stubPosts s') =
          Some ((stubPosts demoStore ! 0)
                  \<lparr>commentCount := int (length (storedComments s' ''post_1000''))\<rparr>))
   \<and> send demoStore ''post_1000'' ''u3'' ''U3'' ''   '' 2000 2001 = Inr demoStore"
proof -
  have h1: "\<not> inheritedKey ''post_1000''" by code_simp
  have h2: "find (\<lambda>p. post_id p = ''post_1000'') (stubPosts demoStore)
              = Some (stubPosts demoStore ! 0)" by code_simp
  have h3: "''missing-id'' \<noteq> ''post_1000''" by simp
  have h4: "trim ''   '' = []" by code_simp
  from addComment_behaviour
         [OF h1, of demoStore demoComment 2000 "''   ''" "''u3''" "''U3''" 2000 2001]
  obtain s' where all:
    "addComment demoStore ''post_1000'' demoComment 2000 = Inr s' \<and>
     stubComments s' ''post_1000'' =
       Some (storedComments demoStore ''post_1000'' @
               [withCommentId demoComment (''cmt_'' @ showNat 2000)]) \<and>
     (\<forall>k. k \<noteq> ''post_1000'' \<longrightarrow> stubComments s' k = stubComments demoStore k) \<and>
     (''post_1000'' \<notin> post_id ` set (stubPosts demoStore) \<longrightarrow>
        stubPosts s' = stubPosts demoStore) \<and>
     (\<forall>p. find (\<lambda>p. post_id p = ''post_1000'') (stubPosts demoStore) = Some p \<longrightarrow>
          find (\<lambda>p. post_id p = ''post_1000'') (stubPosts s') =
            Some (p\<lparr>commentCount := int (length (storedComments s' ''post_1000''))\<rparr>)) \<and>
     (trim ''   '' = [] \<longrightarrow>
        send demoStore ''post_1000'' ''u3'' ''U3'' ''   '' 2000 2001 = Inr demoStore)" ..
  note r = all [THEN conjunct1]
  note a = all [THEN conjunct2, THEN conjunct1]
  note b = all [THEN conjunct2, THEN conjunct2, THEN conjunct1]
  note d = all [THEN conjunct2, THEN conjunct2, THEN conjunct2, THEN conjunct2, THEN conjunct1]
  note e = all [THEN conjunct2, THEN conjunct2, THEN conjunct2, THEN conjunct2, THEN conjunct2]
  have b': "stubComments s' ''missing-id'' = stubComments demoStore ''missing-id''"
    using b [THEN spec, THEN mp, OF h3] .
  have d': "find (\<lambda>p. post_id p = ''post_1000'') (stubPosts s') =
          Some ((stubPosts demoStore ! 0)
                  \<lparr>commentCount := int (length (storedComments s' ''post_1000''))\<rparr>)"
    using d [THEN spec, THEN mp, OF h2] .
  have e': "send demoStore ''post_1000'' ''u3'' ''U3'' ''   '' 2000 2001 = Inr demoStore"
    using e [THEN mp, OF h4] .
  have ex: "\<exists>s'. addComment demoStore ''post_1000'' demoComment 2000 = Inr s' \<and>
        stubComments s' ''post_1000'' =
          Some (storedComments demoStore ''post_1000'' @
                  [withCommentId demoComment (''cmt_'' @ showNat 2000)]) \<and>
        stubComments s' ''missing-id'' = stubComments demoStore ''missing-id'' \<and>
        find (\<lambda>p. post_id p = ''post_1000'') (stubPosts s') =
          Some ((stubPosts demoStore ! 0)
                  \<lparr>commentCount := int (length (storedComments s' ''post_1000''))\<rparr>)"
    by (rule exI [of _ s']) (intro conjI r a b' d')
  show ?thesis by (intro conjI h1 h2 h3 h4 ex e')
qed

text \<open>
  Claim C7 (comment counter), as the code has it. The claim says the counter of every
  stored post equals the number of comments \<^verbatim>\<open>fetchComments\<close> returns for it, after any
  sequence of the three operations. \<^verbatim>\<open>addComment\<close> also stores a comment for an id no
  post has yet: after \<^verbatim>\<open>addComment("post_5", ...)\<close> and then a \<^verbatim>\<open>createPost\<close> at clock
  reading 5, the new post \<open>post_5\<close> has \<^verbatim>\<open>commentCount\<close> 0 and one stored comment. And
  \<^verbatim>\<open>createPost\<close> stores the \<^verbatim>\<open>commentCount\<close> of the draft as it is: a draft with 7
  gives a post with \<^verbatim>\<open>commentCount\<close> 7 and no comment.
\<close>

theorem commentCount_counterexample:
  "map post_id (stubPosts orphanStore) = [''post_5'']
   \<and> map commentCount (stubPosts orphanStore) = [0]
   \<and> map comment_text (storedComments orphanStore ''post_5'') = [''Nice tip'']
   \<and> \<not> list_all (commentCountOk orphanStore) (stubPosts orphanStore)
   \<and> map post_id (stubPosts countedStore) = [''post_1000'']
   \<and> map commentCount (stubPosts countedStore) = [7]
   \<and> storedComments countedStore ''post_1000'' = []
   \<and> \<not> list_all (commentCountOk countedStore) (stubPosts countedStore)"
  by code_simp

text \<open>
  Claim C7, amended: from the empty store, after any sequence of \<^verbatim>\<open>createPost\<close>,
  \<^verbatim>\<open>toggleReaction\<close> and \<^verbatim>\<open>addComment\<close> calls in which every draft has
  \<^verbatim>\<open>commentCount\<close> 0 and gets an id no stored post has, and every comment is added to a
  post that is in the store, \<^verbatim>\<open>fetchComments\<close> returns for the id of every stored post,
  and the number of comments it returns is the post's \<^verbatim>\<open>commentCount\<close>.
\<close>

theorem commentCount_matches_fetchComments:
  assumes "admissibleSeq initialStore xs"
  shows "list_all (commentCountOk (run initialStore xs)) (stubPosts (run initialStore xs))"
proof -
  have "feedInv (run initialStore xs)"
    using feedInv_initial assms by (rule feedInv_run)
  then show ?thesis by (simp add: list_all_iff feedInv_commentCountOk)
qed

theorem commentCount_matches_fetchComments_witness:
  "admissibleSeq initialStore demoOps
   \<and> map commentCount (stubPosts (run initialStore demoOps)) = [1]
   \<and> list_all (commentCountOk (run initialStore demoOps)) (stubPosts (run initialStore demoOps))"
proof -
  have h: "admissibleSeq initialStore demoOps" by code_simp
  have c: "map commentCount (stubPosts (run initialStore demoOps)) = [1]" by code_simp
  from commentCount_matches_fetchComments [OF h] h c show ?thesis by blast
qed

text \<open>
  Claim C8 (feed order). \<^verbatim>\<open>fetchPosts\<close> returns the posts of the store, each as often as
  it is stored, ordered by \<^verbatim>\<open>createdAt\<close> descending: every result has a \<^verbatim>\<open>createdAt\<close>
  at least that of every later one, and so of the next one.
\<close>

theorem fetchPosts_sorted_all:
  "mset (fetchPosts s) = mset (stubPosts s) \<and>
   sorted_wrt (\<lambda>a b. createdAt a \<ge> createdAt b) (fetchPosts s) \<and>
   (\<forall>i. Suc i < length (fetchPosts s) \<longrightarrow>
        createdAt (fetchPosts s ! i) \<ge> createdAt (fetchPosts s ! Suc i))"
proof -
  let ?cmp = "\<lambda>a b :: post. createdAt b - createdAt a"
  have "sorted_wrt (\<lambda>a b. ?cmp a b \<le> 0) (jsSort ?cmp (stubPosts s))"
    by (rule jsSort_ordered) auto
  then have ordered: "sorted_wrt (\<lambda>a b. createdAt a \<ge> createdAt b) (fetchPosts s)"
    by (simp add: fetchPosts_def)
  have adjacent: "\<forall>i. Suc i < length (fetchPosts s) \<longrightarrow>
        createdAt (fetchPosts s ! i) \<ge> createdAt (fetchPosts s ! Suc i)"
    using ordered by (simp add: sorted_wrt_iff_nth_less)
  have "mset (fetchPosts s) = mset (stubPosts s)" by (simp add: fetchPosts_def)
  with ordered adjacent show ?thesis by blast
qed

theorem fetchPosts_sorted_all_witness:
  "map createdAt (stubPosts twoPostStore) = [500, 1000]
   \<and> Suc 0 < length (fetchPosts twoPostStore)
   \<and> map createdAt (fetchPosts twoPostStore) = [1000, 500]
   \<and> createdAt (fetchPosts twoPostStore ! 0) \<ge> createdAt (fetchPosts twoPostStore ! Suc 0)
   \<and> mset (fetchPosts twoPostStore) = mset (stubPosts twoPostStore)"
proof -
  have h0: "map createdAt (stubPosts twoPostStore) = [500, 1000]" by code_simp
  have h1: "Suc 0 < length (fetchPosts twoPostStore)" by code_simp
  have h2: "map createdAt (fetchPosts twoPostStore) = [1000, 500]" by code_simp
  from fetchPosts_sorted_all [of twoPostStore] h0 h1 h2 show ?thesis by blast
qed

text \<open>
  Claim C9 (fresh post ids). The id is made from the clock, \<^verbatim>\<open>post_<Date.now()>\<close>. A
  second \<^verbatim>\<open>createPost\<close> at the clock reading of the first returns the id the stored post
  already has, and the store then has two posts with that id.
\<close>

theorem createPost_repeats_id:
  "map post_id (stubPosts demoStore) = [''post_1000'']
   \<and> fst (createPost demoStore olderDraft 1000) = ''post_1000''
   \<and> map post_id (stubPosts (snd (createPost demoStore olderDraft 1000)))
       = [''post_1000'', ''post_1000'']"
  by code_simp

text \<open>
  Claim C10 (frame of \<^verbatim>\<open>toggleReaction\<close>). The call returns normally; the comment store
  is unchanged; the store has the same number of posts, in the same places; every post
  keeps its \<^verbatim>\<open>id\<close>, \<^verbatim>\<open>authorId\<close>, \<^verbatim>\<open>authorName\<close>, \<^verbatim>\<open>title\<close>,
  \<^verbatim>\<open>description\<close>, \<^verbatim>\<open>mediaUrl\<close>, \<^verbatim>\<open>mediaType\<close>, \<^verbatim>\<open>commentCount\<close> and
  \<^verbatim>\<open>createdAt\<close>; and every post is unchanged but the one the call finds, the first with
  the given id: a post with another id is unchanged, and so is a post with the given id
  that stands after another one with it.
\<close>

theorem toggleReaction_frame:
  "\<exists>s'. toggleReaction s postId userId r = Inr s' \<and>
        stubComments s' = stubComments s \<and>
        length (stubPosts s') = length (stubPosts s) \<and>
        list_all2 (\<lambda>p q. sameOutsideReactions p q \<and> (post_id p \<noteq> postId \<longrightarrow> q = p))
          (stubPosts s) (stubPosts s') \<and>
        (\<forall>i < length (stubPosts s).
           post_id (stubPosts s ! i) \<noteq> postId \<or> (\<exists>j<i. post_id (stubPosts s ! j) = postId)
             \<longrightarrow> stubPosts s' ! i = stubPosts s ! i)"
proof -
  let ?ps = "updateFirst (\<lambda>p. post_id p = postId) (react userId r) (stubPosts s)"
  have "list_all2 (\<lambda>p q. (q = p \<or> q = react userId r p) \<and> (\<not> post_id p = postId \<longrightarrow> q = p))
          (stubPosts s) ?ps"
    by (rule updateFirst_frame)
  then have fields: "list_all2 (\<lambda>p q. sameOutsideReactions p q \<and> (post_id p \<noteq> postId \<longrightarrow> q = p))
          (stubPosts s) ?ps"
    by (rule list_all2_mono) (auto simp: react_sameOutside sameOutside_refl)
  have others: "\<forall>i < length (stubPosts s).
           post_id (stubPosts s ! i) \<noteq> postId \<or> (\<exists>j<i. post_id (stubPosts s ! j) = postId)
             \<longrightarrow> ?ps ! i = stubPosts s ! i"
    using nth_updateFirst_other [of _ "stubPosts s" "\<lambda>p. post_id p = postId" "react userId r"]
    by blast
  from fields others show ?thesis by (simp add: toggleReaction_Inr)
qed

theorem toggleReaction_frame_witness:
  "map post_id (stubPosts collisionStore) = [''post_1001'', ''post_1000'', ''post_1000'']
   \<and> post_id (stubPosts collisionStore ! 0) \<noteq> ''post_1000''
   \<and> post_id (stubPosts collisionStore ! 1) = ''post_1000''
   \<and> (\<exists>s'. toggleReaction collisionStore ''post_1000'' ''u2'' like = Inr s' \<and>
          stubComments s' = stubComments collisionStore \<and>
          length (stubPosts s') = length (stubPosts collisionStore) \<and>
          stubPosts s' ! 0 = stubPosts collisionStore ! 0 \<and>
          sameOutsideReactions (stubPosts collisionStore ! 1) (stubPosts s' ! 1) \<and>
          stubPosts s' ! 2 = stubPosts collisionStore ! 2)"
proof -
  have h0: "map post_id (stubPosts collisionStore) = [''post_1001'', ''post_1000'', ''post_1000'']"
    by code_simp
  have h1: "post_id (stubPosts collisionStore ! 0) \<noteq> ''post_1000''" by code_simp
  have h2: "post_id (stubPosts collisionStore ! 1) = ''post_1000''" by code_simp
  have len: "0 < length (stubPosts collisionStore)" "1 < length (stubPosts collisionStore)"
    "2 < length (stubPosts collisionStore)"
    by code_simp+
  from toggleReaction_frame [of collisionStore "''post_1000''" "''u2''" like]
  obtain s' where all:
    "toggleReaction collisionStore ''post_1000'' ''u2'' like = Inr s' \<and>
     stubComments s' = stubComments collisionStore \<and>
     length (stubPosts s') = length (stubPosts collisionStore) \<and>
     list_all2 (\<lambda>p q. sameOutsideReactions p q \<and> (post_id p \<noteq> ''post_1000'' \<longrightarrow> q = p))
       (stubPosts collisionStore) (stubPosts s') \<and>
     (\<forall>i < length (stubPosts collisionStore).
        post_id (stubPosts collisionStore ! i) \<noteq> ''post_1000'' \<or>
        (\<exists>j<i. post_id (stubPosts collisionStore ! j) = ''post_1000'')
          \<longrightarrow> stubPosts s' ! i = stubPosts collisionStore ! i)" ..
  note ret = all [THEN conjunct1]
  note cms = all [THEN conjunct2, THEN conjunct1]
  note lng = all [THEN conjunct2, THEN conjunct2, THEN conjunct1]
  note fld = all [THEN conjunct2, THEN conjunct2, THEN conjunct2, THEN conjunct1]
  note oth = all [THEN conjunct2, THEN conjunct2, THEN conjunct2, THEN conjunct2]
  from oth len(1) h1 have first: "stubPosts s' ! 0 = stubPosts collisionStore ! 0" by blast
  have "\<exists>j<2. post_id (stubPosts collisionStore ! j) = ''post_1000''"
    using h2 by (intro exI [of _ 1]) simp
  with oth len(3) have third: "stubPosts s' ! 2 = stubPosts collisionStore ! 2" by blast
  from list_all2_nthD [OF fld len(2)]
  have second: "sameOutsideReactions (stubPosts collisionStore ! 1) (stubPosts s' ! 1)" by blast
  have ex: "\<exists>s'. toggleReaction collisionStore ''post_1000'' ''u2'' like = Inr s' \<and>
          stubComments s' = stubComments collisionStore \<and>
          length (stubPosts s') = length (stubPosts collisionStore) \<and>
          stubPosts s' ! 0 = stubPosts collisionStore ! 0 \<and>
          sameOutsideReactions (stubPosts collisionStore ! 1) (stubPosts s' ! 1) \<and>
          stubPosts s' ! 2 = stubPosts collisionStore ! 2"
    by (rule exI [of _ s']) (intro conjI ret cms lng first second third)
  show ?thesis by (intro conjI h0 h1 h2 ex)
qed

end
